theory Spec2Isabelle
  imports Main "HOL-Library.Sublist" "HOL-Library.AList"
begin

section \<open>The site reorganisation script \<^verbatim>\<open>scripts/reorg-site.sh\<close>\<close>

text \<open>
  The script is a sequence of shell commands over a git working tree, with an embedded
  Perl substitution (asset paths) and an embedded Python program (link check).  The
  embedding keeps the script's function names.  Text is \<^typ>\<open>string\<close>, one
  \<^typ>\<open>char\<close> per byte.  Paths are the strings the script builds
  (\<^verbatim>\<open>"$WEBROOT/css"\<close>), relative to the repository root, which is the
  working directory.
\<close>

subsection \<open>Redirect stubs\<close>

text \<open>
  \<^verbatim>\<open>write_redirect_stub\<close> feeds \<^verbatim>\<open>cat\<close> a here-document whose delimiter
  is quoted, so the only substitution is that of \<^verbatim>\<open>${target}\<close>, done when the
  command string is built.  The ellipsis of the title is three UTF-8 bytes.
\<close>

definition nl :: string where
  "nl = [CHR 0x0A]"

definition stub_text :: "string \<Rightarrow> string" where
  \<open>stub_text target =
     ''<!DOCTYPE html>'' @ nl @
     ''<html lang="en">'' @ nl @
     ''<head>'' @ nl @
     ''  <meta charset="UTF-8" />'' @ nl @
     ''  <meta http-equiv="refresh" content="0; url='' @ target @ ''" />'' @ nl @
     ''  <link rel="canonical" href="'' @ target @ ''" />'' @ nl @
     ''  <title>Redirecting'' @ [CHR 0xE2, CHR 0x80, CHR 0xA6] @ ''</title>'' @ nl @
     ''  <script>window.location.replace("'' @ target @ ''");</script>'' @ nl @
     ''</head>'' @ nl @
     ''<body>'' @ nl @
     ''  <p>This page has moved. <a href="'' @ target @
        ''">Click here if you are not redirected.</a></p>'' @ nl @
     ''</body>'' @ nl @
     ''</html>'' @ nl\<close>

subsection \<open>The working tree and the repository\<close>

text \<open>
  What the script reads and changes: the regular files of the working tree with their
  contents, its directories, the git index, the branches with the tree of their last
  commit, and the standard output.  \<open>commits\<close> lists the messages of the commits
  made, \<open>cmds\<close> the state-changing commands that ran and succeeded, in order; both are
  there to state what a run did.  \<open>ignored\<close> is the repository's ignore rule.
\<close>

type_synonym tree = "(string \<times> string) list"

datatype outline = Log string | Echo string

record state =
  inside_repo :: bool
  files :: tree
  dirs :: "string list"
  index :: tree
  branch :: string
  refs :: "(string \<times> tree) list"
  ignored :: "string \<Rightarrow> bool"
  commits :: "string list"
  out :: "outline list"
  cmds :: "string list"

text \<open>
  The environment of a run: the two configuration variables, the time stamp
  \<^verbatim>\<open>date\<close> prints, and what \<^verbatim>\<open>tar\<close> does (its exit status and the archive
  it writes).
\<close>

record env =
  WEBROOT :: string
  DRYRUN :: string
  ts :: string
  tar_status :: nat
  tar_bytes :: string

text \<open>
  With \<^verbatim>\<open>set -e\<close> a failing command ends the script with that command's status;
  the state reached so far stays on disk.
\<close>

datatype result = Ok state | Exit nat state

fun seq :: "(state \<Rightarrow> result) list \<Rightarrow> state \<Rightarrow> result" where
  "seq [] st = Ok st"
| "seq (f # fs) st = (case f st of Ok st' \<Rightarrow> seq fs st' | Exit c st' \<Rightarrow> Exit c st')"

definition log :: "string \<Rightarrow> state \<Rightarrow> result" where
  "log s st = Ok (st\<lparr>out := out st @ [Log s]\<rparr>)"

definition echo :: "string \<Rightarrow> state \<Rightarrow> result" where
  "echo s st = Ok (st\<lparr>out := out st @ [Echo s]\<rparr>)"

definition dry :: "env \<Rightarrow> bool" where
  "dry e = (DRYRUN e = ''1'')"

text \<open>
  \<^verbatim>\<open>run\<close>: under \<^verbatim>\<open>DRYRUN=1\<close> the command string is printed, otherwise it is
  evaluated.  \<open>c\<close> is the command string, \<open>act\<close> what evaluating it does.
\<close>

definition ran :: "string \<Rightarrow> state \<Rightarrow> state" where
  "ran c st = st\<lparr>cmds := cmds st @ [c]\<rparr>"

definition run :: "env \<Rightarrow> string \<Rightarrow> (state \<Rightarrow> result) \<Rightarrow> state \<Rightarrow> result" where
  "run e c act st =
     (if dry e then echo (''[DRYRUN] '' @ c) st
      else (case act st of Ok st' \<Rightarrow> Ok (ran c st') | Exit k st' \<Rightarrow> Exit k st'))"

subsection \<open>Paths and file tests\<close>

definition under :: "string \<Rightarrow> string \<Rightarrow> bool" where
  "under d p = (p = d \<or> prefix (d @ ''/'') p)"

definition is_file :: "state \<Rightarrow> string \<Rightarrow> bool" where
  "is_file st p = (map_of (files st) p \<noteq> None)"

definition is_dir :: "state \<Rightarrow> string \<Rightarrow> bool" where
  "is_dir st d =
     (d = ''.'' \<or> d \<in> set (dirs st) \<or> list_ex (\<lambda>p. prefix (d @ ''/'') p) (map fst (files st)))"

definition exists_path :: "state \<Rightarrow> string \<Rightarrow> bool" where
  "exists_path st p = (is_file st p \<or> is_dir st p)"

text \<open>\<^verbatim>\<open>dirname\<close> and \<^verbatim>\<open>basename\<close> of a path without a trailing slash.\<close>

definition basename :: "string \<Rightarrow> string" where
  "basename p = rev (takeWhile (\<lambda>c. c \<noteq> CHR ''/'') (rev p))"

definition dirname :: "string \<Rightarrow> string" where
  "dirname p =
     (if CHR ''/'' \<notin> set p then ''.''
      else (let d = rev (dropWhile (\<lambda>c. c = CHR ''/'') (dropWhile (\<lambda>c. c \<noteq> CHR ''/'') (rev p)))
            in if d = [] then ''/'' else d))"

text \<open>
  Writing a file through a redirection: the shell cannot open a directory or a path
  whose directory is missing, and the command fails with status 1.
\<close>

definition write_file :: "string \<Rightarrow> string \<Rightarrow> state \<Rightarrow> result" where
  "write_file p c st =
     (if is_dir st p \<or> \<not> is_dir st (dirname p) then Exit 1 st
      else Ok (st\<lparr>files := AList.update p c (files st)\<rparr>))"

definition dq :: "string \<Rightarrow> string" where
  \<open>dq s = ''"'' @ s @ ''"''\<close>

definition write_redirect_stub :: "env \<Rightarrow> string \<Rightarrow> string \<Rightarrow> state \<Rightarrow> result" where
  "write_redirect_stub e path target st =
     run e (''cat > '' @ dq path @ '' <<'' @ [CHR 0x27] @ ''HTML'' @ [CHR 0x27] @ nl @
              stub_text target @ ''HTML'')
       (write_file path (stub_text target)) st"

subsection \<open>Rewriting asset paths (the Perl substitutions)\<close>

text \<open>
  Each substitution has the form \<^verbatim>\<open>s/(href|src)\s*=\s*"PRE/$1="REP/g\<close> and is matched
  case-sensitively on the whole file (\<^verbatim>\<open>-0777\<close>).  On a byte string
  \<^verbatim>\<open>\s\<close> is one of tab, line feed, vertical tab, form feed, carriage return, space.
  A match at a position is unique: the greedy \<^verbatim>\<open>\s*\<close> cannot give a character
  back to \<^verbatim>\<open>=\<close> or to the quote.
\<close>

definition perl_space :: "char \<Rightarrow> bool" where
  "perl_space c = (c \<in> set [CHR 0x09, CHR 0x0A, CHR 0x0B, CHR 0x0C, CHR 0x0D, CHR 0x20])"

definition attr_name :: "string \<Rightarrow> (string \<times> string) option" where
  "attr_name s =
     (if prefix ''href'' s then Some (''href'', drop 4 s)
      else if prefix ''src'' s then Some (''src'', drop 3 s)
      else None)"

text \<open>
  \<open>match_at pre s\<close>: the pattern matches at the start of \<open>s\<close>; the result is the
  attribute name \<^verbatim>\<open>$1\<close> and the text after the match.
\<close>

definition match_at :: "string \<Rightarrow> string \<Rightarrow> (string \<times> string) option" where
  "match_at pre s =
     (case attr_name s of
        None \<Rightarrow> None
      | Some (a, r1) \<Rightarrow>
          (case dropWhile perl_space r1 of
             [] \<Rightarrow> None
           | c # r2 \<Rightarrow>
               if c \<noteq> CHR ''='' then None
               else (case dropWhile perl_space r2 of
                       [] \<Rightarrow> None
                     | d # r3 \<Rightarrow>
                         if d = CHR 0x22 \<and> prefix pre r3
                         then Some (a, drop (length pre) r3) else None)))"

text \<open>
  \<^verbatim>\<open>s///g\<close>: scan from the left; where the pattern matches, emit the replacement
  and go on after the match, elsewhere copy one character.
\<close>

function subst :: "string \<Rightarrow> string \<Rightarrow> string \<Rightarrow> string" where
  "subst pre rep [] = []"
| "subst pre rep (c # cs) =
     (case match_at pre (c # cs) of
        Some (a, rest) \<Rightarrow> a @ [CHR ''='', CHR 0x22] @ rep @ subst pre rep rest
      | None \<Rightarrow> c # subst pre rep cs)"
  by pat_completeness auto
termination
proof (relation "measure (\<lambda>(pre, rep, s). length s)")
  have dw: "length (dropWhile P xs) \<le> length xs" for P and xs :: string
    by (induction xs) auto
  have shorter: "length r < length s" if m: "match_at pre s = Some (a, r)" for pre s a r
  proof -
    from m obtain a' r1 where a1: "attr_name s = Some (a', r1)"
      by (auto simp: match_at_def split: option.splits)
    then have l1: "length r1 < length s"
      by (auto simp: attr_name_def prefix_def split: if_splits)
    from m a1 obtain r2 where a2: "dropWhile perl_space r1 = CHR ''='' # r2"
      by (auto simp: match_at_def split: list.splits if_splits)
    from m a1 a2 obtain r3 where a3: "dropWhile perl_space r2 = CHR 0x22 # r3"
      and r: "r = drop (length pre) r3"
      by (auto simp: match_at_def split: list.splits if_splits)
    have "length r \<le> length r3" using r by simp
    also have "\<dots> < length (dropWhile perl_space r2)" using a3 by simp
    also have "\<dots> \<le> length r2" by (rule dw)
    also have "\<dots> < length (dropWhile perl_space r1)" using a2 by simp
    also have "\<dots> \<le> length r1" by (rule dw)
    finally show ?thesis using l1 by simp
  qed
  show "wf (measure (\<lambda>(pre, rep, s). length s))" by simp
  show "((pre, rep, rest), pre, rep, c # cs) \<in> measure (\<lambda>(pre, rep, s). length s)"
    if "match_at pre (c # cs) = Some x" and "(a, rest) = x" for pre rep c cs x a rest
    using shorter [of pre "c # cs" a rest] that by simp
  show "((pre, rep, cs), pre, rep, c # cs) \<in> measure (\<lambda>(pre, rep, s). length s)"
    for pre rep c cs
    by simp
qed

definition rewrite_html :: "string \<Rightarrow> string" where
  "rewrite_html s =
     subst ''img/'' ''/assets/img/''
       (subst ''./img/'' ''/assets/img/''
          (subst ''js/'' ''/assets/js/''
             (subst ''./js/'' ''/assets/js/''
                (subst ''css/'' ''/assets/css/''
                   (subst ''./css/'' ''/assets/css/'' s)))))"

text \<open>
  \<^verbatim>\<open>find "$WEBROOT" -name "*.html" -type f\<close> lists the regular files at or below
  \<^verbatim>\<open>$WEBROOT\<close> whose name ends in \<^verbatim>\<open>.html\<close>; it fails when the root is
  missing, and \<^verbatim>\<open>pipefail\<close> makes that the status of the pipeline.
\<close>

definition is_html :: "string \<Rightarrow> bool" where
  "is_html p = suffix ''.html'' (basename p)"

definition found :: "string \<Rightarrow> string \<Rightarrow> bool" where
  "found root p = (under root p \<and> is_html p)"

definition perl_cmd :: "string \<Rightarrow> string" where
  "perl_cmd f = ''perl -0777 -i -pe ... '' @ dq f"

definition rewrite_files :: "string \<Rightarrow> state \<Rightarrow> result" where
  "rewrite_files root st =
     (if \<not> exists_path st root then Exit 1 st
      else Ok (st\<lparr>files := map (\<lambda>(p, c). if found root p then (p, rewrite_html c) else (p, c))
                                  (files st),
                    cmds := cmds st @ map perl_cmd (filter (found root) (map fst (files st)))\<rparr>))"

definition rewrite_asset_paths :: "env \<Rightarrow> state \<Rightarrow> result" where
  "rewrite_asset_paths e =
     seq [log ''Rewriting asset paths in HTML to /assets/... (safe for nested pages)'',
          (if dry e then echo (''[DRYRUN] Would rewrite paths under '' @ WEBROOT e)
           else rewrite_files (WEBROOT e))]"

subsection \<open>The link check (the Python program)\<close>

text \<open>
  Python strings are modelled by their bytes; the model is exact for ASCII text, where
  \<^verbatim>\<open>\s\<close> and \<^verbatim>\<open>str.strip\<close> take the characters 9 to 13, 28 to 31 and 32 as
  white space and \<^verbatim>\<open>str.lower\<close> changes the letters A to Z only.
\<close>

definition py_space :: "char \<Rightarrow> bool" where
  "py_space c = (c \<in> set [CHR 0x09, CHR 0x0A, CHR 0x0B, CHR 0x0C, CHR 0x0D,
                            CHR 0x1C, CHR 0x1D, CHR 0x1E, CHR 0x1F, CHR 0x20])"

definition lower_char :: "char \<Rightarrow> char" where
  "lower_char c =
     (let n = (of_char c :: nat) in if 65 \<le> n \<and> n \<le> 90 then char_of (n + 32) else c)"

definition lower :: "string \<Rightarrow> string" where
  "lower s = map lower_char s"

definition strip :: "string \<Rightarrow> string" where
  "strip s = rev (dropWhile py_space (rev (dropWhile py_space s)))"

definition is_quote :: "char \<Rightarrow> bool" where
  "is_quote c = (c = CHR 0x22 \<or> c = CHR 0x27)"

text \<open>
  \<^verbatim>\<open>attr_re\<close> is \<^verbatim>\<open>(?:href|src)\s*=\s*["']([^"']+)["']\<close>, case-insensitive.
  \<open>py_match s\<close>: the pattern matches at the start of \<open>s\<close>; the result is the group
  and the text after the match.  The group is the longest run without a quote, and a
  quote must follow it.
\<close>

definition py_attr :: "string \<Rightarrow> string option" where
  "py_attr s =
     (if lower (take 4 s) = ''href'' then Some (drop 4 s)
      else if lower (take 3 s) = ''src'' then Some (drop 3 s)
      else None)"

definition py_match :: "string \<Rightarrow> (string \<times> string) option" where
  "py_match s =
     (case py_attr s of
        None \<Rightarrow> None
      | Some r1 \<Rightarrow>
          (case dropWhile py_space r1 of
             [] \<Rightarrow> None
           | c # r2 \<Rightarrow>
               if c \<noteq> CHR ''='' then None
               else (case dropWhile py_space r2 of
                       [] \<Rightarrow> None
                     | d # r3 \<Rightarrow>
                         if \<not> is_quote d then None
                         else (let v = takeWhile (\<lambda>x. \<not> is_quote x) r3;
                                   r4 = dropWhile (\<lambda>x. \<not> is_quote x) r3
                               in if v = [] \<or> r4 = [] then None else Some (v, tl r4)))))"

text \<open>\<^verbatim>\<open>attr_re.findall(html)\<close>: the groups of the matches, found from the left.\<close>

function findall :: "string \<Rightarrow> string list" where
  "findall [] = []"
| "findall (c # cs) =
     (case py_match (c # cs) of
        Some (v, rest) \<Rightarrow> v # findall rest
      | None \<Rightarrow> findall cs)"
  by pat_completeness auto
termination
proof (relation "measure length")
  have dw: "length (dropWhile P xs) \<le> length xs" for P and xs :: string
    by (induction xs) auto
  have shorter: "length r < length s" if m: "py_match s = Some (v, r)" for s v r
  proof -
    from m obtain r1 where a1: "py_attr s = Some r1"
      by (auto simp: py_match_def split: option.splits)
    then have l1: "length r1 \<le> length s"
      by (auto simp: py_attr_def split: if_splits)
    from m a1 obtain r2 where a2: "dropWhile py_space r1 = CHR ''='' # r2"
      by (auto simp: py_match_def split: list.splits if_splits)
    from m a1 a2 obtain d r3 where a3: "dropWhile py_space r2 = d # r3"
      and r: "r = tl (dropWhile (\<lambda>x. \<not> is_quote x) r3)"
      by (auto simp: py_match_def Let_def split: list.splits if_splits)
    have "length r \<le> length (dropWhile (\<lambda>x. \<not> is_quote x) r3)" using r by simp
    also have "\<dots> \<le> length r3" by (rule dw)
    also have "\<dots> < length (dropWhile py_space r2)" using a3 by simp
    also have "\<dots> \<le> length r2" by (rule dw)
    also have "\<dots> < length (dropWhile py_space r1)" using a2 by simp
    also have "\<dots> \<le> length r1" by (rule dw)
    finally show ?thesis using l1 by simp
  qed
  show "wf (measure (length :: string \<Rightarrow> nat))" by simp
  show "(rest, c # cs) \<in> measure length"
    if "py_match (c # cs) = Some x" and "(v, rest) = x" for c cs x v rest
    using shorter [of "c # cs" v rest] that by simp
  show "(cs, c # cs) \<in> measure length" for c :: char and cs
    by simp
qed

definition normalize_url :: "string \<Rightarrow> string" where
  "normalize_url u =
     strip (takeWhile (\<lambda>c. c \<noteq> CHR ''?'') (takeWhile (\<lambda>c. c \<noteq> CHR ''#'') u))"

definition is_ignored :: "string \<Rightarrow> bool" where
  "is_ignored u0 =
     (let u = strip u0 in
      if u = [] \<or> prefix ''#'' u then True
      else (let low = lower u in
            prefix ''http://'' low \<or> prefix ''https://'' low
            \<or> prefix ''mailto:'' low \<or> prefix ''tel:'' low
            \<or> prefix ''javascript:'' low
            \<or> prefix ''data:'' low))"

text \<open>\<^verbatim>\<open>os.path.join\<close>, \<^verbatim>\<open>os.path.dirname\<close> and \<^verbatim>\<open>os.path.normpath\<close> (POSIX).\<close>

definition py_join :: "string \<Rightarrow> string \<Rightarrow> string" where
  "py_join a b =
     (if prefix ''/'' b then b
      else if a = [] \<or> last a = CHR ''/'' then a @ b
      else a @ ''/'' @ b)"

definition py_dirname :: "string \<Rightarrow> string" where
  "py_dirname p =
     (let head = rev (dropWhile (\<lambda>c. c \<noteq> CHR ''/'') (rev p)) in
      if head \<noteq> [] \<and> \<not> list_all (\<lambda>c. c = CHR ''/'') head
      then rev (dropWhile (\<lambda>c. c = CHR ''/'') (rev head)) else head)"

fun split_on :: "char \<Rightarrow> string \<Rightarrow> string list" where
  "split_on c [] = [[]]"
| "split_on c (x # xs) =
     (if x = c then [] # split_on c xs
      else (case split_on c xs of [] \<Rightarrow> [[x]] | y # ys \<Rightarrow> (x # y) # ys))"

fun join_with :: "string \<Rightarrow> string list \<Rightarrow> string" where
  "join_with sep [] = []"
| "join_with sep [x] = x"
| "join_with sep (x # y # ys) = x @ sep @ join_with sep (y # ys)"

definition norm_step :: "nat \<Rightarrow> string list \<Rightarrow> string \<Rightarrow> string list" where
  "norm_step initial_slashes new_comps part =
     (if part = [] \<or> part = ''.'' then new_comps
      else if part \<noteq> ''..'' \<or> (initial_slashes = 0 \<and> new_comps = [])
              \<or> (new_comps \<noteq> [] \<and> last new_comps = ''..'')
      then new_comps @ [part]
      else if new_comps \<noteq> [] then butlast new_comps
      else new_comps)"

definition normpath :: "string \<Rightarrow> string" where
  "normpath path =
     (if path = [] then ''.''
      else (let initial_slashes =
                  (if prefix ''/'' path
                   then (if prefix ''//'' path \<and> \<not> prefix ''///'' path then 2 else 1)
                   else (0::nat));
                comps = foldl (norm_step initial_slashes) [] (split_on CHR ''/'' path);
                p = replicate initial_slashes CHR ''/'' @ join_with ''/'' comps
            in if p = [] then ''.'' else p))"

text \<open>
  \<^verbatim>\<open>os.path.isdir\<close> and \<^verbatim>\<open>os.path.exists\<close> ask the operating system, which
  walks the path one component at a time from the working directory: an empty
  component or \<^verbatim>\<open>.\<close> stays, \<^verbatim>\<open>..\<close> goes up, a name must exist, and every
  step starts in a directory.  The model knows the repository only: an absolute path
  and a path that climbs above the working directory denote nothing.
\<close>

definition canon :: "string list \<Rightarrow> string" where
  "canon cur = (if cur = [] then ''.'' else join_with ''/'' cur)"

fun walk_path :: "state \<Rightarrow> string list \<Rightarrow> string list \<Rightarrow> string list option" where
  "walk_path st cur [] = Some cur"
| "walk_path st cur (c # cs) =
     (if \<not> is_dir st (canon cur) then None
      else if c = [] \<or> c = ''.'' then walk_path st cur cs
      else if c = ''..'' then (if cur = [] then None else walk_path st (butlast cur) cs)
      else if exists_path st (canon (cur @ [c])) then walk_path st (cur @ [c]) cs
      else None)"

definition os_lookup :: "state \<Rightarrow> string \<Rightarrow> string list option" where
  "os_lookup st p =
     (if p = [] \<or> prefix ''/'' p then None else walk_path st [] (split_on CHR ''/'' p))"

definition os_isdir :: "state \<Rightarrow> string \<Rightarrow> bool" where
  "os_isdir st p = (case os_lookup st p of None \<Rightarrow> False | Some cur \<Rightarrow> is_dir st (canon cur))"

definition os_exists :: "state \<Rightarrow> string \<Rightarrow> bool" where
  "os_exists st p = (os_lookup st p \<noteq> None)"

text \<open>
  The body of the loop over the references of one file.  \<open>candidate\<close> is the path
  \<^verbatim>\<open>target\<close> that must exist; \<open>check_url\<close> is one iteration, with the list
  \<^verbatim>\<open>bad\<close> passed through.
\<close>

definition is_local :: "string \<Rightarrow> bool" where
  "is_local url = (\<not> is_ignored url \<and> \<not> prefix ''//'' url)"

definition candidate :: "state \<Rightarrow> string \<Rightarrow> string \<Rightarrow> string \<Rightarrow> string" where
  "candidate st root path url =
     (let target =
            (if prefix ''/'' url then py_join root (dropWhile (\<lambda>c. c = CHR ''/'') url)
             else normpath (py_join (py_dirname path) url))
      in if os_isdir st target then py_join target ''index.html'' else target)"

definition check_url ::
  "state \<Rightarrow> string \<Rightarrow> string \<Rightarrow> (string \<times> string \<times> string) list \<Rightarrow> string
   \<Rightarrow> (string \<times> string \<times> string) list" where
  "check_url st root path bad raw =
     (let url = normalize_url raw in
      if is_ignored url then bad
      else if prefix ''//'' url then bad
      else (let target = candidate st root path url in
            if \<not> os_exists st target then bad @ [(path, url, target)] else bad))"

text \<open>
  \<^verbatim>\<open>os.walk\<close> visits the files below the root, in the order of the directory
  listing (here the order of \<open>files\<close>); the loop keeps the names ending in
  \<^verbatim>\<open>.html\<close>.  The root is taken in the form the script's default has: a relative
  path without a trailing slash, so that the joined path of a file is its path in
  \<open>files\<close>.
\<close>

definition walk :: "string \<Rightarrow> state \<Rightarrow> (string \<times> string) list" where
  "walk root st = filter (\<lambda>(p, c). prefix (root @ ''/'') p \<and> is_html p) (files st)"

definition check_links :: "string \<Rightarrow> state \<Rightarrow> (string \<times> string \<times> string) list" where
  "check_links root st =
     foldl (\<lambda>bad (path, html). foldl (check_url st root path) bad (findall html)) [] (walk root st)"

definition report :: "string \<times> string \<times> string \<Rightarrow> outline" where
  "report v = (case v of (p, url, t) \<Rightarrow>
     Echo (''- In: '' @ p @ nl @ ''  url: '' @ url @ nl @ ''  expected: '' @ t @ nl))"

definition link_check :: "env \<Rightarrow> state \<Rightarrow> result" where
  "link_check e =
     seq [log (''Running local link check (href/src '' @ [CHR 0xE2, CHR 0x86, CHR 0x92]
               @ '' file exists)''),
          (\<lambda>st. if dry e then echo (''[DRYRUN] Would run link check under '' @ WEBROOT e) st
                else (let bad = check_links (WEBROOT e) st in
                      if bad \<noteq> []
                      then Exit 2 (st\<lparr>out := out st @ Echo (nl @ ''BROKEN LINKS FOUND:'')
                                                        # map report bad\<rparr>)
                      else echo ''Link check passed.'' st))]"

text \<open>
  For the convergence of the rewriting: \<open>has_match pre s\<close> says that the pattern with
  prefix \<open>pre\<close> matches somewhere in \<open>s\<close>; \<open>legacy\<close> and \<open>canonical\<close> list the
  prefixes the six substitutions look for and the ones they write; \<open>safe w\<close> says that
  no attribute name can start inside \<open>w\<close>.
\<close>

fun has_match :: "string \<Rightarrow> string \<Rightarrow> bool" where
  "has_match pre [] = False"
| "has_match pre (c # cs) = (match_at pre (c # cs) \<noteq> None \<or> has_match pre cs)"

definition legacy :: "string list" where
  "legacy = [''./css/'', ''css/'', ''./js/'', ''js/'', ''./img/'', ''img/'']"

definition canonical :: "string list" where
  "canonical = [''/assets/css/'', ''/assets/js/'', ''/assets/img/'']"

fun safe :: "string \<Rightarrow> bool" where
  "safe [] = True"
| "safe [d] = (d \<noteq> CHR ''h'' \<and> d \<noteq> CHR ''s'')"
| "safe (d # d2 # w) = (d \<noteq> CHR ''h'' \<and> (d = CHR ''s'' \<longrightarrow> d2 \<noteq> CHR ''r'') \<and> safe (d2 # w))"

subsection \<open>Sample inputs\<close>

text \<open>
  A default, real run; a small repository on branch main with nothing uncommitted; and
  a publish root holding one page with a legacy stylesheet reference.
\<close>

definition env0 :: env where
  "env0 = \<lparr>WEBROOT = ''docs'', DRYRUN = ''0'', ts = ''20260101_000000'', tar_status = 0,
            tar_bytes = ''tar''\<rparr>"

definition repo0 :: state where
  \<open>repo0 =
     \<lparr>inside_repo = True,
      files = [(''index.html'', ''<link href="css/site.css"><a href="jc_guide.html">Guide</a>''),
               (''jc_guide.html'', ''<script src="./js/app.js"></script>''),
               (''css/site.css'', ''body{}''),
               (''js/app.js'', ''1;'')],
      dirs = [''css'', ''js''],
      index = [(''index.html'', ''<link href="css/site.css"><a href="jc_guide.html">Guide</a>''),
               (''jc_guide.html'', ''<script src="./js/app.js"></script>''),
               (''css/site.css'', ''body{}''),
               (''js/app.js'', ''1;'')],
      branch = ''main'',
      refs = [(''main'',
               [(''index.html'', ''<link href="css/site.css"><a href="jc_guide.html">Guide</a>''),
                (''jc_guide.html'', ''<script src="./js/app.js"></script>''),
                (''css/site.css'', ''body{}''),
                (''js/app.js'', ''1;'')])],
      ignored = (\<lambda>p. False),
      commits = [], out = [], cmds = []\<rparr>\<close>

definition page0 :: state where
  \<open>page0 = repo0\<lparr>files := [(''docs/index.html'', ''<link href="css/site.css">'')],
                     dirs := [''docs'']\<rparr>\<close>

subsection \<open>The classes of references, in words\<close>

text \<open>
  \<open>spec_ignorable\<close> follows the wording of the specification: a value is ignorable
  when it is empty, anchor-only, or begins with one of the listed schemes or with two
  slashes.  \<open>skipped\<close> is the class the loop of the link check skips, written out: it
  is compared with the code below.
\<close>

definition spec_ignorable :: "string \<Rightarrow> bool" where
  "spec_ignorable u =
     (u = [] \<or> prefix ''#'' u
      \<or> prefix ''http:'' u \<or> prefix ''https:'' u \<or> prefix ''mailto:'' u \<or> prefix ''tel:'' u
      \<or> prefix ''javascript:'' u \<or> prefix ''data:'' u \<or> prefix ''//'' u)"

definition skipped :: "string \<Rightarrow> bool" where
  "skipped u =
     (let low = lower u in
      u = [] \<or> prefix ''http://'' low \<or> prefix ''https://'' low \<or> prefix ''mailto:'' low
      \<or> prefix ''tel:'' low \<or> prefix ''javascript:'' low \<or> prefix ''data:'' low
      \<or> prefix ''//'' u)"



subsection \<open>git and the shell commands\<close>

text \<open>
  The commands the script calls, as far as the script can observe them.  What git
  prints is not modelled, except that \<^verbatim>\<open>git status --porcelain\<close> prints one line
  for each path that differs between the last commit, the index and the working tree
  or that is untracked and not ignored (its lines appear here as the bare paths).
\<close>

definition head_tree :: "state \<Rightarrow> tree" where
  "head_tree st = (case map_of (refs st) (branch st) of None \<Rightarrow> [] | Some t \<Rightarrow> t)"

definition status_paths :: "state \<Rightarrow> string list" where
  "status_paths st =
     filter (\<lambda>p. \<not> (map_of (index st) p = map_of (head_tree st) p \<and>
                    (map_of (files st) p = map_of (index st) p \<or>
                     (map_of (index st) p = None \<and> ignored st p))))
       (remdups (map fst (head_tree st) @ map fst (index st) @ map fst (files st)))"

definition require_clean_git :: "state \<Rightarrow> result" where
  "require_clean_git st =
     (if \<not> inside_repo st
      then Exit 1 (st\<lparr>out := out st @ [Echo ''ERROR: Not inside a git repository.'']\<rparr>)
      else if status_paths st \<noteq> []
      then Exit 1 (st\<lparr>out := out st @ Echo ''ERROR: Working tree not clean. Commit/stash first.''
                                       # map Echo (status_paths st)\<rparr>)
      else Ok st)"

text \<open>
  \<^verbatim>\<open>tar\<close> either writes the archive and returns 0, or fails with its status; what a
  failed \<^verbatim>\<open>tar\<close> leaves behind is not modelled.
\<close>

definition sq :: "string \<Rightarrow> string" where
  "sq s = [CHR 0x27] @ s @ [CHR 0x27]"

definition backup_name :: "env \<Rightarrow> string" where
  "backup_name e = ''backup_before_reorg_'' @ ts e @ ''.tar.gz''"

definition tar :: "env \<Rightarrow> string \<Rightarrow> state \<Rightarrow> result" where
  "tar e backup st =
     (if tar_status e \<noteq> 0 then Exit (tar_status e) st
      else Ok (st\<lparr>files := AList.update backup (tar_bytes e) (files st)\<rparr>))"

definition backup_repo :: "env \<Rightarrow> state \<Rightarrow> result" where
  "backup_repo e =
     seq [log (''Creating backup: '' @ backup_name e),
          run e (''tar --exclude='' @ sq ''./.git'' @ '' --exclude='' @ sq ''./node_modules''
                 @ '' -czf '' @ sq (backup_name e) @ '' .'')
            (tar e (backup_name e)),
          echo (''Backup created: '' @ backup_name e)]"

text \<open>
  \<^verbatim>\<open>mkdir -p\<close> makes each directory with its missing parents; it fails on a path
  that runs through a regular file, goes on with the other arguments, and returns 1.
\<close>

definition parents :: "string \<Rightarrow> string list" where
  "parents p =
     map (join_with ''/'') (filter (\<lambda>cs. cs \<noteq> []) (prefixes (split_on CHR ''/'' p)))"

fun mkdir_p :: "string list \<Rightarrow> state \<Rightarrow> result" where
  "mkdir_p [] st = Ok st"
| "mkdir_p (p # ps) st =
     (if list_ex (is_file st) (parents p)
      then (case mkdir_p ps st of Ok st' \<Rightarrow> Exit 1 st' | Exit k st' \<Rightarrow> Exit k st')
      else mkdir_p ps (st\<lparr>dirs := dirs st @ filter (\<lambda>d. \<not> is_dir st d) (parents p)\<rparr>))"

text \<open>
  \<^verbatim>\<open>git ls-files --error-unmatch path\<close> succeeds when the path is in the index or
  is a directory with an index entry below it.
\<close>

definition is_tracked :: "state \<Rightarrow> string \<Rightarrow> bool" where
  "is_tracked st path = list_ex (under path) (map fst (index st))"

text \<open>
  \<^verbatim>\<open>git mv src dst\<close> renames in the working tree and in the index.  A destination
  that is a directory receives the source under its own name.  It fails (status 128)
  on a source that is missing or not tracked, on a destination that exists, whose
  directory is missing, or that lies inside the source.
\<close>

definition rename :: "string \<Rightarrow> string \<Rightarrow> string \<Rightarrow> string" where
  "rename src dst p =
     (if p = src then dst
      else if prefix (src @ ''/'') p then dst @ drop (length src) p
      else p)"

definition mv_target :: "state \<Rightarrow> string \<Rightarrow> string \<Rightarrow> string" where
  "mv_target st src dst = (if is_dir st dst then dst @ ''/'' @ basename src else dst)"

definition git_mv :: "string \<Rightarrow> string \<Rightarrow> state \<Rightarrow> result" where
  "git_mv src dst st =
     (let dst' = mv_target st src dst in
      if \<not> exists_path st src \<or> \<not> is_tracked st src
         \<or> exists_path st dst' \<or> is_tracked st dst'
         \<or> \<not> is_dir st (dirname dst')
         \<or> under src dst'
      then Exit 128 st
      else Ok (st\<lparr>files := map (\<lambda>(p, c). (rename src dst' p, c)) (files st),
                    dirs := map (rename src dst') (dirs st),
                    index := map (\<lambda>(p, c). (rename src dst' p, c)) (index st)\<rparr>))"

text \<open>
  \<^verbatim>\<open>git add\<close> stages the content of each file (the removal of a tracked file that
  is gone); it fails, staging nothing, on a path that matches nothing or that is
  ignored and untracked.
\<close>

definition addable :: "state \<Rightarrow> string \<Rightarrow> bool" where
  "addable st p =
     (case map_of (files st) p of
        Some c \<Rightarrow> \<not> (ignored st p \<and> map_of (index st) p = None)
      | None \<Rightarrow> map_of (index st) p \<noteq> None)"

definition stage :: "string \<Rightarrow> state \<Rightarrow> state" where
  "stage p st =
     (case map_of (files st) p of
        Some c \<Rightarrow> st\<lparr>index := AList.update p c (index st)\<rparr>
      | None \<Rightarrow> st\<lparr>index := AList.delete p (index st)\<rparr>)"

definition git_add :: "string list \<Rightarrow> state \<Rightarrow> result" where
  "git_add ps st =
     (if list_all (addable st) ps
      then Ok (ran (''git add '' @ join_with '' '' (map dq ps)) (fold stage ps st))
      else Exit 128 st)"

text \<open>
  \<^verbatim>\<open>git commit\<close> records the index as the new tree of the current branch; with
  nothing staged it fails with status 1.
\<close>

definition same_tree :: "tree \<Rightarrow> tree \<Rightarrow> bool" where
  "same_tree a b = list_all (\<lambda>p. map_of a p = map_of b p) (map fst a @ map fst b)"

definition git_commit :: "string \<Rightarrow> state \<Rightarrow> result" where
  "git_commit msg st =
     (if same_tree (index st) (head_tree st) then Exit 1 st
      else Ok (ran (''git commit -m '' @ dq msg)
                 (st\<lparr>refs := AList.update (branch st) (index st) (refs st),
                     commits := commits st @ [msg]\<rparr>)))"

text \<open>
  \<^verbatim>\<open>git checkout --orphan b\<close> makes \<open>b\<close> the current, unborn branch and keeps index
  and working tree; it fails if the branch exists.  \<^verbatim>\<open>git checkout b\<close> switches to
  an existing branch by git's two-way merge of the index between the tree of the
  current commit (empty on an unborn branch) and the tree of \<open>b\<close>: a path is kept,
  removed or written, and one rejected path makes the command fail and change nothing.
\<close>

definition git_checkout_orphan :: "string \<Rightarrow> state \<Rightarrow> result" where
  "git_checkout_orphan b st =
     (if map_of (refs st) b \<noteq> None then Exit 128 st else Ok (st\<lparr>branch := b\<rparr>))"

datatype act = Keep | Remove | Put string | Reject

definition merge_act :: "state \<Rightarrow> tree \<Rightarrow> tree \<Rightarrow> string \<Rightarrow> act" where
  "merge_act st old new p =
     (let cur = map_of (index st) p; was = map_of old p; goal = map_of new p;
          wt = map_of (files st) p
      in case cur of
           Some c \<Rightarrow>
             if (was = None \<and> (goal = None \<or> goal = cur))
                \<or> (was \<noteq> None \<and> goal \<noteq> None \<and> (goal = was \<or> goal = cur))
             then Keep
             else if was \<noteq> None \<and> cur = was \<and> (wt = cur \<or> wt = None)
             then (case goal of None \<Rightarrow> Remove | Some v \<Rightarrow> Put v)
             else Reject
         | None \<Rightarrow>
             (case goal of
                None \<Rightarrow> Keep
              | Some v \<Rightarrow>
                  if was \<noteq> None then (if goal = was then Keep else Reject)
                  else if wt = None \<or> ignored st p then Put v
                  else Reject))"

definition apply_act :: "string \<times> act \<Rightarrow> state \<Rightarrow> state" where
  "apply_act pa st =
     (case pa of (p, a) \<Rightarrow>
        (case a of
           Keep \<Rightarrow> st
         | Remove \<Rightarrow> st\<lparr>files := AList.delete p (files st), index := AList.delete p (index st)\<rparr>
         | Put v \<Rightarrow> st\<lparr>files := AList.update p v (files st), index := AList.update p v (index st)\<rparr>
         | Reject \<Rightarrow> st))"

definition git_checkout :: "string \<Rightarrow> state \<Rightarrow> result" where
  "git_checkout b st =
     (if branch st = b then Ok st
      else (case map_of (refs st) b of
              None \<Rightarrow> Exit 1 st
            | Some new \<Rightarrow>
                (let old = head_tree st;
                     ps = remdups (map fst (index st) @ map fst old @ map fst new);
                     acts = map (\<lambda>p. (p, merge_act st old new p)) ps
                 in if list_ex (\<lambda>pa. snd pa = Reject) acts then Exit 1 st
                    else Ok (fold apply_act acts (st\<lparr>branch := b\<rparr>)))))"

text \<open>\<^verbatim>\<open>cmd || true\<close>\<close>

definition or_true :: "(state \<Rightarrow> result) \<Rightarrow> state \<Rightarrow> result" where
  "or_true act st = (case act st of Ok st' \<Rightarrow> Ok st' | Exit k st' \<Rightarrow> Ok st')"

subsection \<open>The orchestrator: \<^verbatim>\<open>main\<close>\<close>

definition in_root :: "env \<Rightarrow> string \<Rightarrow> string" where
  "in_root e p = WEBROOT e @ ''/'' @ p"

definition git_mv_cmd :: "string \<Rightarrow> string \<Rightarrow> string" where
  "git_mv_cmd src dst = ''git mv '' @ dq src @ '' '' @ dq dst"

definition mkdir_cmd :: "string list \<Rightarrow> string" where
  "mkdir_cmd ps = ''mkdir -p '' @ join_with '' '' (map dq ps)"

definition git_mv_if_exists_and_tracked :: "env \<Rightarrow> string \<Rightarrow> string \<Rightarrow> state \<Rightarrow> result" where
  "git_mv_if_exists_and_tracked e src dst st =
     (if exists_path st src \<and> is_tracked st src
      then seq [run e (mkdir_cmd [dirname dst]) (mkdir_p [dirname dst]),
                run e (git_mv_cmd src dst) (git_mv src dst)] st
      else echo (''Skipping (not tracked or missing): '' @ src) st)"

text \<open>\<^verbatim>\<open>if test; then ...; fi\<close> and \<^verbatim>\<open>if [[ "$DRYRUN" != "1" ]]; then ...; fi\<close>\<close>

definition guarded :: "(state \<Rightarrow> bool) \<Rightarrow> (state \<Rightarrow> result) \<Rightarrow> state \<Rightarrow> result" where
  "guarded c f st = (if c st then f st else Ok st)"

definition unless_dry :: "env \<Rightarrow> (state \<Rightarrow> result) \<Rightarrow> state \<Rightarrow> result" where
  "unless_dry e f st = (if dry e then Ok st else f st)"

text \<open>Step 1: the tracked site content goes into the web root.\<close>

definition site_dirs :: "string list" where
  "site_dirs = [''css'', ''js'', ''img'', ''downloads'', ''JC'']"

definition root_files :: "string list" where
  "root_files = [''index.html'', ''jc_guide.html'', ''jc-october-2025.html'', ''JC-2025-10-14.html'',
                 ''JC-JAN-2026.html'', ''summary-2025.html'', ''JC-Pre-session-Sept-2025.pdf'']"

definition flatten :: "env \<Rightarrow> state \<Rightarrow> result" where
  "flatten e =
     seq (log (''Moving tracked site content into '' @ WEBROOT e @ '' (git mv)'')
          # map (\<lambda>f. git_mv_if_exists_and_tracked e f (in_root e f)) (site_dirs @ root_files))"

definition commit_if_changed :: "env \<Rightarrow> string \<Rightarrow> string \<Rightarrow> state \<Rightarrow> result" where
  "commit_if_changed e msg otherwise =
     unless_dry e (\<lambda>st. if status_paths st \<noteq> [] then git_commit msg st else echo otherwise st)"

text \<open>Step 2: the clean structure inside the web root, with the redirect stubs.\<close>

definition make_structure :: "env \<Rightarrow> state \<Rightarrow> result" where
  "make_structure e =
     seq (map (\<lambda>ps. run e (mkdir_cmd ps) (mkdir_p ps))
            [[in_root e ''assets/css'', in_root e ''assets/js'', in_root e ''assets/img''],
             [in_root e ''guide''],
             [in_root e ''sessions/2025/10'', in_root e ''sessions/2026/01''],
             [in_root e ''summaries/2025'']])"

definition move_assets :: "env \<Rightarrow> state \<Rightarrow> result" where
  "move_assets e =
     seq (map (\<lambda>d. guarded (\<lambda>st. is_dir st (in_root e d))
                      (git_mv_if_exists_and_tracked e (in_root e d) (in_root e (''assets/'' @ d))))
            [''css'', ''js'', ''img''])"

definition relocate_guide :: "env \<Rightarrow> state \<Rightarrow> result" where
  "relocate_guide e =
     guarded (\<lambda>st. is_file st (in_root e ''jc_guide.html''))
       (seq [run e (git_mv_cmd (in_root e ''jc_guide.html'') (in_root e ''guide/index.html''))
               (git_mv (in_root e ''jc_guide.html'') (in_root e ''guide/index.html'')),
             run e ''git checkout --orphan __tmp__ >/dev/null 2>&1 || true''
               (or_true (git_checkout_orphan ''__tmp__'')),
             run e ''git checkout main >/dev/null 2>&1 || true''
               (or_true (git_checkout ''main'')),
             write_redirect_stub e (in_root e ''jc_guide.html'') ''/guide/'',
             unless_dry e (git_add [in_root e ''jc_guide.html''])])"

definition oct_src :: "env \<Rightarrow> state \<Rightarrow> string" where
  "oct_src e st =
     (if is_file st (in_root e ''JC-2025-10-14.html'') then in_root e ''JC-2025-10-14.html''
      else if is_file st (in_root e ''jc-october-2025.html'') then in_root e ''jc-october-2025.html''
      else [])"

definition relocate_october :: "env \<Rightarrow> state \<Rightarrow> result" where
  "relocate_october e st =
     (if oct_src e st \<noteq> []
      then seq [run e (git_mv_cmd (oct_src e st) (in_root e ''sessions/2025/10/index.html''))
                  (git_mv (oct_src e st) (in_root e ''sessions/2025/10/index.html'')),
                write_redirect_stub e (in_root e ''JC-2025-10-14.html'') ''/sessions/2025/10/'',
                write_redirect_stub e (in_root e ''jc-october-2025.html'') ''/sessions/2025/10/'',
                unless_dry e (git_add [in_root e ''JC-2025-10-14.html'',
                                       in_root e ''jc-october-2025.html''])] st
      else Ok st)"

definition relocate_january :: "env \<Rightarrow> state \<Rightarrow> result" where
  "relocate_january e =
     guarded (\<lambda>st. is_file st (in_root e ''JC-JAN-2026.html''))
       (seq [run e (git_mv_cmd (in_root e ''JC-JAN-2026.html'') (in_root e ''sessions/2026/01/index.html''))
               (git_mv (in_root e ''JC-JAN-2026.html'') (in_root e ''sessions/2026/01/index.html'')),
             write_redirect_stub e (in_root e ''JC-JAN-2026.html'') ''/sessions/2026/01/'',
             unless_dry e (git_add [in_root e ''JC-JAN-2026.html''])])"

definition relocate_summary :: "env \<Rightarrow> state \<Rightarrow> result" where
  "relocate_summary e =
     guarded (\<lambda>st. is_file st (in_root e ''summary-2025.html''))
       (seq [run e (git_mv_cmd (in_root e ''summary-2025.html'') (in_root e ''summaries/2025/index.html''))
               (git_mv (in_root e ''summary-2025.html'') (in_root e ''summaries/2025/index.html'')),
             write_redirect_stub e (in_root e ''summary-2025.html'') ''/summaries/2025/'',
             unless_dry e (git_add [in_root e ''summary-2025.html''])])"

definition restructure :: "env \<Rightarrow> state \<Rightarrow> result" where
  "restructure e =
     seq [log (''Creating clean structure under '' @ WEBROOT e),
          make_structure e, move_assets e,
          relocate_guide e, relocate_october e, relocate_january e, relocate_summary e]"

definition next_steps :: "env \<Rightarrow> state \<Rightarrow> result" where
  "next_steps e =
     seq [log ''DONE'',
          echo ''Next steps:'',
          echo (''1) GitHub: Settings '' @ [CHR 0xE2, CHR 0x86, CHR 0x92] @ '' Pages ''
                @ [CHR 0xE2, CHR 0x86, CHR 0x92] @ '' Source: main branch ''
                @ [CHR 0xE2, CHR 0x86, CHR 0x92] @ '' Folder: /'' @ WEBROOT e),
          echo (''2) DreamHost: upload '' @ WEBROOT e @ ''/* to your web root''),
          echo ''3) Test legacy URLs and new clean URLs'']"

definition main :: "env \<Rightarrow> state \<Rightarrow> result" where
  "main e =
     seq [require_clean_git,
          backup_repo e,
          log (''Preparing web root: '' @ WEBROOT e),
          run e (mkdir_cmd [WEBROOT e]) (mkdir_p [WEBROOT e]),
          flatten e,
          commit_if_changed e (''chore: move site content into '' @ WEBROOT e @ '' web root'')
            ''No tracked moves detected (maybe already moved).'',
          restructure e,
          rewrite_asset_paths e,
          link_check e,
          commit_if_changed e
            ''refactor: organize site into sessions, guide, assets with legacy redirects''
            ''No changes to commit (already organized?).'',
          next_steps e]"

text \<open>What a run leaves, and the headings it printed.\<close>

fun state_of :: "result \<Rightarrow> state" where
  "state_of (Ok st) = st"
| "state_of (Exit k st) = st"



definition phases :: "state \<Rightarrow> string list" where
  "phases st = concat (map (\<lambda>l. case l of Log s \<Rightarrow> [s] | Echo s \<Rightarrow> []) (out st))"

text \<open>
  \<open>untouched st st'\<close>: nothing of the working tree or of the repository differs
  between the two states, and no state-changing command ran in between.
\<close>

definition untouched :: "state \<Rightarrow> state \<Rightarrow> bool" where
  "untouched st st' =
     (files st' = files st \<and> dirs st' = dirs st \<and> index st' = index st \<and> refs st' = refs st
      \<and> branch st' = branch st \<and> commits st' = commits st \<and> cmds st' = cmds st)"



definition logs :: "string list \<Rightarrow> (state \<Rightarrow> result) \<Rightarrow> bool" where
  "logs l f = (\<forall>st st'. f st = Ok st' \<longrightarrow> phases st' = phases st @ l)"



text \<open>A repository whose pages refer to each other only; a real run completes on it.\<close>

definition pages0 :: state where
  \<open>pages0 =
     repo0\<lparr>files := [(''index.html'', ''<a href="jc_guide.html">Guide</a>''),
                     (''jc_guide.html'', ''<a href="index.html">Home</a>'')],
           dirs := [],
           index := [(''index.html'', ''<a href="jc_guide.html">Guide</a>''),
                     (''jc_guide.html'', ''<a href="index.html">Home</a>'')],
           refs := [(''main'', [(''index.html'', ''<a href="jc_guide.html">Guide</a>''),
                                (''jc_guide.html'', ''<a href="index.html">Home</a>'')])]\<rparr>\<close>



text \<open>
  A repository with a stylesheet and a guide page whose stylesheet reference is a
  legacy one.
\<close>

definition guide1 :: state where
  \<open>guide1 =
     repo0\<lparr>files := [(''jc_guide.html'', ''<link href="css/css/site.css">''),
                     (''css/site.css'', ''body{}'')],
           dirs := [''css''],
           index := [(''jc_guide.html'', ''<link href="css/css/site.css">''),
                     (''css/site.css'', ''body{}'')],
           refs := [(''main'', [(''jc_guide.html'', ''<link href="css/css/site.css">''),
                                (''css/site.css'', ''body{}'')])]\<rparr>\<close>

text \<open>
  \<open>hoare P f Q\<close>: when the step \<open>f\<close> starts in a state with \<open>P\<close> and returns, the
  state it returns has \<open>Q\<close>.  \<open>plain_root\<close> describes the publish roots for which
  the paths the script builds are the paths of the model: one directory name, as
  the default \<^verbatim>\<open>docs\<close>, which is none of the names the script moves.
\<close>

definition hoare :: "(state \<Rightarrow> bool) \<Rightarrow> (state \<Rightarrow> result) \<Rightarrow> (state \<Rightarrow> bool) \<Rightarrow> bool" where
  "hoare P f Q = (\<forall>s s'. P s \<longrightarrow> f s = Ok s' \<longrightarrow> Q s')"

definition plain_root :: "string \<Rightarrow> bool" where
  "plain_root w =
     (w \<noteq> [] \<and> w \<noteq> ''.'' \<and> w \<noteq> ''..'' \<and> CHR ''/'' \<notin> set w
      \<and> w \<notin> set (site_dirs @ root_files))"

section \<open>Properties\<close>

subsection \<open>The substitutions converge\<close>

lemma match_at_Nil [simp]: "match_at pre [] = None"
  by (simp add: match_at_def attr_name_def)

lemma subst_no_match: "\<not> has_match pre s \<Longrightarrow> subst pre rep s = s"
  by (induction s) (auto split: option.splits)

lemma match_at_name: "match_at pre s = Some (a, r) \<Longrightarrow> a = ''href'' \<or> a = ''src''"
  by (auto simp: match_at_def attr_name_def split: option.splits list.splits if_splits)

lemma match_at_suffix: "match_at pre s = Some (a, r) \<Longrightarrow> suffix r s"
proof -
  assume m: "match_at pre s = Some (a, r)"
  then obtain a' r1 where a1: "attr_name s = Some (a', r1)"
    by (auto simp: match_at_def split: option.splits)
  then have s1: "suffix r1 s"
    by (auto simp: attr_name_def suffix_drop split: if_splits)
  from m a1 obtain r2 where a2: "dropWhile perl_space r1 = CHR ''='' # r2"
    by (auto simp: match_at_def split: list.splits if_splits)
  from m a1 a2 obtain r3 where a3: "dropWhile perl_space r2 = CHR 0x22 # r3"
    and r: "r = drop (length pre) r3"
    by (auto simp: match_at_def split: list.splits if_splits)
  have "suffix r r3" using r by (simp add: suffix_drop)
  also have "suffix r3 (dropWhile perl_space r2)" using a3 by (simp add: suffix_ConsI)
  also have "suffix \<dots> r2" by (rule suffix_dropWhile)
  also have "suffix r2 (dropWhile perl_space r1)" using a2 by (simp add: suffix_ConsI)
  also have "suffix \<dots> r1" by (rule suffix_dropWhile)
  finally show ?thesis using s1 by (rule suffix_order.trans)
qed

lemma has_match_suffix: "suffix t s \<Longrightarrow> has_match pre t \<Longrightarrow> has_match pre s"
proof (induction s)
  case Nil then show ?case by simp
next
  case (Cons c cs)
  show ?case
  proof (cases "t = c # cs")
    case True with Cons.prems show ?thesis by simp
  next
    case False
    with Cons.prems have "suffix t cs" by (auto simp: suffix_Cons)
    with Cons show ?thesis by simp
  qed
qed

lemma subst_copy:
  assumes "subst pre rep x = d # y" "d \<noteq> CHR ''h''" "d \<noteq> CHR ''s''"
  shows "\<exists>x'. x = d # x' \<and> y = subst pre rep x'"
proof (cases x)
  case Nil with assms show ?thesis by simp
next
  case (Cons c cs)
  show ?thesis
  proof (cases "match_at pre (c # cs)")
    case None with assms Cons show ?thesis by simp
  next
    case (Some ar)
    obtain a r where ar: "ar = (a, r)" by (cases ar)
    with Some match_at_name have "a = ''href'' \<or> a = ''src''" by blast
    with assms Cons Some ar show ?thesis by auto
  qed
qed

lemma subst_copy_s:
  assumes "subst pre rep x = CHR ''s'' # d # y" "d \<noteq> CHR ''r''"
  shows "\<exists>x'. x = CHR ''s'' # x' \<and> d # y = subst pre rep x'"
proof (cases x)
  case Nil with assms show ?thesis by simp
next
  case (Cons c cs)
  show ?thesis
  proof (cases "match_at pre (c # cs)")
    case None with assms Cons show ?thesis by simp
  next
    case (Some ar)
    obtain a r where ar: "ar = (a, r)" by (cases ar)
    with Some match_at_name have "a = ''href'' \<or> a = ''src''" by blast
    with assms Cons Some ar show ?thesis by auto
  qed
qed

lemma subst_copy_space:
  assumes "dropWhile perl_space (subst pre rep x) = d # y" "d \<noteq> CHR ''h''" "d \<noteq> CHR ''s''"
  shows "\<exists>x'. dropWhile perl_space x = d # x' \<and> y = subst pre rep x'"
  using assms
proof (induction x)
  case Nil then show ?case by simp
next
  case (Cons c cs)
  show ?case
  proof (cases "match_at pre (c # cs)")
    case None
    with Cons show ?thesis by (auto split: if_splits)
  next
    case (Some ar)
    obtain a r where ar: "ar = (a, r)" by (cases ar)
    with Some match_at_name have "a = ''href'' \<or> a = ''src''" by blast
    with Cons.prems Some ar show ?thesis by (auto simp: perl_space_def)
  qed
qed



lemma subst_copy_prefix: "safe w \<Longrightarrow> prefix w (subst pre rep x) \<Longrightarrow> prefix w x"
proof (induction w arbitrary: x rule: safe.induct)
  case 1
  then show ?case by simp
next
  case (2 d)
  then obtain y where "subst pre rep x = d # y" by (auto simp: prefix_def)
  with 2 subst_copy [of pre rep x d y] show ?case by auto
next
  case (3 d d2 w)
  then obtain y where y: "subst pre rep x = d # d2 # y" and p: "prefix w y"
    by (auto simp: prefix_def)
  have "\<exists>x'. x = d # x' \<and> d2 # y = subst pre rep x'"
  proof (cases "d = CHR ''s''")
    case True
    with 3 y subst_copy_s [of pre rep x d2 y] show ?thesis by auto
  next
    case False
    with 3 y subst_copy [of pre rep x d "d2 # y"] show ?thesis by auto
  qed
  then obtain x' where x': "x = d # x'" "d2 # y = subst pre rep x'" by blast
  with p have "prefix (d2 # w) (subst pre rep x')" by (metis Cons_prefix_Cons)
  with 3 have "prefix (d2 # w) x'" by simp
  with x' show ?case by simp
qed

lemma safe_legacy: "w \<in> set legacy \<Longrightarrow> safe w"
  unfolding legacy_def by (elim disjE | simp)+

lemma match_at_copy:
  assumes "safe w" "match_at w (c # subst pre rep cs) = Some (a, r)"
  shows "match_at w (c # cs) \<noteq> None"
proof -
  from assms(2) obtain a' r1 where a1: "attr_name (c # subst pre rep cs) = Some (a', r1)"
    by (auto simp: match_at_def split: option.splits)
  from assms(2) a1 obtain r2 where a2: "dropWhile perl_space r1 = CHR ''='' # r2"
    by (auto simp: match_at_def split: list.splits if_splits)
  from assms(2) a1 a2 obtain r3 where a3: "dropWhile perl_space r2 = CHR 0x22 # r3"
    and r: "prefix w r3"
    by (auto simp: match_at_def split: list.splits if_splits)
  have "\<exists>c1. attr_name (c # cs) = Some (a', c1) \<and> r1 = subst pre rep c1"
  proof (cases "prefix ''href'' (c # subst pre rep cs)")
    case True
    with a1 have a': "a' = ''href''" and c: "c = CHR ''h''"
      and s: "subst pre rep cs = CHR ''r'' # CHR ''e'' # CHR ''f'' # r1"
      by (auto simp: attr_name_def prefix_def)
    from subst_copy [OF s] obtain x1 where x1: "cs = CHR ''r'' # x1"
      "CHR ''e'' # CHR ''f'' # r1 = subst pre rep x1" by auto
    from subst_copy [OF x1(2) [symmetric]] obtain x2 where x2: "x1 = CHR ''e'' # x2"
      "CHR ''f'' # r1 = subst pre rep x2" by auto
    from subst_copy [OF x2(2) [symmetric]] obtain x3 where x3: "x2 = CHR ''f'' # x3"
      "r1 = subst pre rep x3" by auto
    from a' c x1 x2 x3 show ?thesis by (simp add: attr_name_def)
  next
    case False
    with a1 have a': "a' = ''src''" and c: "c = CHR ''s''"
      and s: "subst pre rep cs = CHR ''r'' # CHR ''c'' # r1"
      by (auto simp: attr_name_def prefix_def split: if_splits)
    from subst_copy [OF s] obtain x1 where x1: "cs = CHR ''r'' # x1"
      "CHR ''c'' # r1 = subst pre rep x1" by auto
    from subst_copy [OF x1(2) [symmetric]] obtain x2 where x2: "x1 = CHR ''c'' # x2"
      "r1 = subst pre rep x2" by auto
    from a' c x1 x2 show ?thesis by (simp add: attr_name_def)
  qed
  then obtain c1 where c1: "attr_name (c # cs) = Some (a', c1)" "r1 = subst pre rep c1" by blast
  from a2 c1 subst_copy_space [of pre rep c1 "CHR ''=''" r2]
  obtain c2 where c2: "dropWhile perl_space c1 = CHR ''='' # c2" "r2 = subst pre rep c2" by auto
  from a3 c2 subst_copy_space [of pre rep c2 "CHR 0x22" r3]
  obtain c3 where c3: "dropWhile perl_space c2 = CHR 0x22 # c3" "r3 = subst pre rep c3" by auto
  from r c3 assms(1) have "prefix w c3" by (auto dest: subst_copy_prefix)
  with c1 c2 c3 show ?thesis by (simp add: match_at_def)
qed


lemma has_match_skip:
  "c \<noteq> CHR ''h'' \<Longrightarrow> c \<noteq> CHR ''s'' \<Longrightarrow> has_match w (c # t) = has_match w t"
  by (simp add: match_at_def attr_name_def)

lemma has_match_skip_s:
  "d \<noteq> CHR ''r'' \<Longrightarrow> has_match w (CHR ''s'' # d # t) = has_match w (d # t)"
  by (simp add: match_at_def attr_name_def)

lemma legacy_not_slash: "w \<in> set legacy \<Longrightarrow> \<not> prefix w (CHR ''/'' # y)"
  unfolding legacy_def by (elim disjE | simp)+

lemma has_match_href:
  "\<not> prefix w (CHR ''/'' # t) \<Longrightarrow>
   has_match w (''href'' @ [CHR ''='', CHR 0x22] @ CHR ''/'' # t) = has_match w t"
  by (simp add: match_at_def attr_name_def perl_space_def)

lemma has_match_src:
  "\<not> prefix w (CHR ''/'' # t) \<Longrightarrow>
   has_match w (''src'' @ [CHR ''='', CHR 0x22] @ CHR ''/'' # t) = has_match w t"
  by (simp add: match_at_def attr_name_def perl_space_def)

lemma has_match_canonical:
  "rep \<in> set canonical \<Longrightarrow> has_match w (rep @ x) = has_match w (CHR ''/'' # x)"
  unfolding canonical_def
  by (elim disjE | simp add: has_match_skip has_match_skip_s del: has_match.simps)+


lemma has_match_replacement:
  assumes "w \<in> set legacy" "rep \<in> set canonical" "a = ''href'' \<or> a = ''src''"
  shows "has_match w (a @ [CHR ''='', CHR 0x22] @ rep @ x) = has_match w x"
proof -
  from assms(2) obtain y where y: "rep = CHR ''/'' # y"
    unfolding canonical_def by (elim disjE | simp)+
  have "has_match w (a @ [CHR ''='', CHR 0x22] @ rep @ x) = has_match w (y @ x)"
    using assms(3) y legacy_not_slash [OF assms(1), of "y @ x"]
      has_match_href [of w "y @ x"] has_match_src [of w "y @ x"] by auto
  also have "\<dots> = has_match w (rep @ x)"
    using y by (simp add: has_match_skip del: has_match.simps)
  also have "\<dots> = has_match w x"
    using has_match_canonical [OF assms(2)] by (simp add: has_match_skip del: has_match.simps)
  finally show ?thesis .
qed

lemma subst_keeps_clean:
  assumes "w \<in> set legacy"
  shows "rep \<in> set canonical \<Longrightarrow> \<not> has_match w s \<Longrightarrow> \<not> has_match w (subst pre rep s)"
proof (induction pre rep s rule: subst.induct)
  case (1 pre rep)
  then show ?case by simp
next
  case (2 pre rep c cs)
  show ?case
  proof (cases "match_at pre (c # cs)")
    case None
    from "2.prems" have ncs: "\<not> has_match w cs" by simp
    from "2.prems" have n: "match_at w (c # cs) = None"
      by (cases "match_at w (c # cs)") simp_all
    from "2.IH" "2.prems"(1) None ncs have "\<not> has_match w (subst pre rep cs)" by simp
    moreover have "match_at w (c # subst pre rep cs) = None"
    proof (cases "match_at w (c # subst pre rep cs)")
      case (Some br)
      obtain b r where "br = (b, r)" by (cases br)
      with Some n match_at_copy [OF safe_legacy [OF assms(1)], of c pre rep cs b r]
      show ?thesis by simp
    qed simp
    ultimately have "\<not> has_match w (c # subst pre rep cs)" by simp
    with None show ?thesis by simp
  next
    case (Some ar)
    obtain a r where ar: "ar = (a, r)" by (cases ar)
    from Some ar have "suffix r (c # cs)" by (auto dest: match_at_suffix)
    with "2.prems" have "\<not> has_match w r" by (auto dest: has_match_suffix)
    with "2.IH" "2.prems"(1) Some ar have h: "\<not> has_match w (subst pre rep r)" by simp
    from Some ar have an: "a = ''href'' \<or> a = ''src''" by (auto dest: match_at_name)
    have "\<not> has_match w (a @ [CHR ''='', CHR 0x22] @ rep @ subst pre rep r)"
      using has_match_replacement [OF assms "2.prems"(1) an, of "subst pre rep r"] h by simp
    then show ?thesis using Some ar by simp
  qed
qed

lemma subst_clean:
  assumes "pre \<in> set legacy" "rep \<in> set canonical"
  shows "\<not> has_match pre (subst pre rep s)"
  using assms
proof (induction pre rep s rule: subst.induct)
  case (1 pre rep)
  then show ?case by simp
next
  case (2 pre rep c cs)
  show ?case
  proof (cases "match_at pre (c # cs)")
    case None
    with "2.IH" "2.prems" have "\<not> has_match pre (subst pre rep cs)" by simp
    moreover have "match_at pre (c # subst pre rep cs) = None"
    proof (cases "match_at pre (c # subst pre rep cs)")
      case (Some br)
      obtain b r where "br = (b, r)" by (cases br)
      with Some None match_at_copy [OF safe_legacy [OF "2.prems"(1)], of c pre rep cs b r]
      show ?thesis by simp
    qed simp
    ultimately have "\<not> has_match pre (c # subst pre rep cs)" by simp
    with None show ?thesis by simp
  next
    case (Some ar)
    obtain a r where ar: "ar = (a, r)" by (cases ar)
    with "2.IH" Some "2.prems" have h: "\<not> has_match pre (subst pre rep r)" by simp
    from Some ar have an: "a = ''href'' \<or> a = ''src''" by (auto dest: match_at_name)
    have "\<not> has_match pre (a @ [CHR ''='', CHR 0x22] @ rep @ subst pre rep r)"
      using has_match_replacement [OF "2.prems" an, of "subst pre rep r"] h by simp
    then show ?thesis using Some ar by simp
  qed
qed

lemma legacy_mem:
  "''./css/'' \<in> set legacy" "''css/'' \<in> set legacy" "''./js/'' \<in> set legacy"
  "''js/'' \<in> set legacy" "''./img/'' \<in> set legacy" "''img/'' \<in> set legacy"
  by (simp_all add: legacy_def)

lemma canonical_mem:
  "''/assets/css/'' \<in> set canonical" "''/assets/js/'' \<in> set canonical"
  "''/assets/img/'' \<in> set canonical"
  by (simp_all add: canonical_def)

lemma rewrite_html_clean: "w \<in> set legacy \<Longrightarrow> \<not> has_match w (rewrite_html s)"
  unfolding rewrite_html_def legacy_def
  by (elim disjE | simp add: subst_clean subst_keeps_clean legacy_mem canonical_mem)+

lemma rewrite_html_idem: "rewrite_html (rewrite_html s) = rewrite_html s"
proof -
  have "rewrite_html t = t" if "\<forall>w \<in> set legacy. \<not> has_match w t" for t
    using that by (simp add: rewrite_html_def legacy_def subst_no_match)
  then show ?thesis using rewrite_html_clean by blast
qed

lemma exists_path_rewritten:
  "exists_path (st\<lparr>files := map (\<lambda>(p, c). if P p then (p, f c) else (p, c)) (files st), cmds := x\<rparr>) d
   = exists_path st d"
proof -
  have k: "map (fst \<circ> (\<lambda>(p, c). if P p then (p, f c) else (p, c))) xs = map fst xs" for xs :: tree
    by (induction xs) auto
  have m: "map_of (map (\<lambda>(p, c). if P p then (p, f c) else (p, c)) xs) d = None \<longleftrightarrow> map_of xs d = None"
    for xs :: tree
    by (induction xs) (auto split: if_splits)
  show ?thesis by (simp add: exists_path_def is_file_def is_dir_def k m)
qed

lemma rewrite_files_twice:
  assumes "rewrite_files root st = Ok st1"
  shows "\<exists>st2. rewrite_files root (st1\<lparr>out := x\<rparr>) = Ok st2 \<and> files st2 = files st1"
proof -
  from assms have e: "exists_path st root"
    and st1: "st1 = st\<lparr>files := map (\<lambda>(p, c). if found root p then (p, rewrite_html c) else (p, c)) (files st),
                    cmds := cmds st @ map perl_cmd (filter (found root) (map fst (files st)))\<rparr>"
    by (auto simp: rewrite_files_def split: if_splits)
  have "exists_path st1 root" unfolding st1 using e by (simp only: exists_path_rewritten)
  then have e1: "exists_path (st1\<lparr>out := x\<rparr>) root"
    by (simp add: exists_path_def is_file_def is_dir_def)
  have "map (\<lambda>(p, c). if found root p then (p, rewrite_html c) else (p, c)) (files st1) = files st1"
    unfolding st1 by (auto simp: rewrite_html_idem)
  with e1 show ?thesis by (simp add: rewrite_files_def)
qed

text \<open>
  Claim C2.  Rewriting is idempotent: a second pass over rewritten text changes nothing,
  and a second run of \<^verbatim>\<open>rewrite_asset_paths\<close> leaves every file as the first
  run left it.
\<close>

theorem rewrite_asset_paths_idempotent:
  "rewrite_html (rewrite_html s) = rewrite_html s \<and>
   (rewrite_asset_paths e st = Ok st1 \<longrightarrow>
      (\<exists>st2. rewrite_asset_paths e st1 = Ok st2 \<and> files st2 = files st1))"
proof (intro conjI impI)
  show "rewrite_html (rewrite_html s) = rewrite_html s" by (rule rewrite_html_idem)
next
  assume a: "rewrite_asset_paths e st = Ok st1"
  show "\<exists>st2. rewrite_asset_paths e st1 = Ok st2 \<and> files st2 = files st1"
  proof (cases "dry e")
    case True
    with a show ?thesis by (auto simp: rewrite_asset_paths_def log_def echo_def)
  next
    case False
    with a obtain st' where "rewrite_files (WEBROOT e) st' = Ok st1"
      by (auto simp: rewrite_asset_paths_def log_def split: result.splits)
    from rewrite_files_twice [OF this, of "out st1 @
        [Log ''Rewriting asset paths in HTML to /assets/... (safe for nested pages)'']"] False
    show ?thesis
      by (auto simp: rewrite_asset_paths_def log_def)
  qed
qed

theorem rewrite_asset_paths_idempotent_witness:
  \<open>\<exists>st1. rewrite_asset_paths env0 page0 = Ok st1
      \<and> files st1 = [(''docs/index.html'', ''<link href="/assets/css/site.css">'')]
      \<and> (\<exists>st2. rewrite_asset_paths env0 st1 = Ok st2 \<and> files st2 = files st1)\<close>
proof -
  have \<open>\<exists>st1. rewrite_asset_paths env0 page0 = Ok st1
      \<and> files st1 = [(''docs/index.html'', ''<link href="/assets/css/site.css">'')]\<close>
    by (simp add: rewrite_asset_paths_def log_def dry_def env0_def page0_def repo0_def
        rewrite_files_def exists_path_def is_file_def is_dir_def found_def under_def is_html_def
        basename_def rewrite_html_def match_at_def attr_name_def perl_space_def suffix_to_prefix)
  then show ?thesis using rewrite_asset_paths_idempotent [of _ env0 page0] by blast
qed


subsection \<open>Redirect stubs\<close>


lemma is_dir_ran [simp]: "is_dir (ran c st) d = is_dir st d"
  by (simp add: ran_def is_dir_def)





subsection \<open>The link check\<close>

lemma rev_dropWhile_rev_prefix: "prefix (rev (dropWhile P (rev t))) t"
proof -
  have "rev t = takeWhile P (rev t) @ dropWhile P (rev t)" by simp
  then have "t = rev (dropWhile P (rev t)) @ rev (takeWhile P (rev t))"
    by (metis rev_append rev_rev_ident)
  then show ?thesis by (metis prefixI)
qed

lemma strip_head: "strip s \<noteq> [] \<Longrightarrow> \<not> py_space (hd (strip s))"
proof -
  assume n: "strip s \<noteq> []"
  let ?t = "dropWhile py_space s"
  have p: "prefix (strip s) ?t" unfolding strip_def by (rule rev_dropWhile_rev_prefix)
  with n have "?t \<noteq> []" by (metis prefix_Nil)
  then have "\<not> py_space (hd ?t)" by (rule hd_dropWhile)
  moreover from p n have "hd (strip s) = hd ?t" by (auto simp: prefix_def)
  ultimately show ?thesis by simp
qed

lemma strip_strip: "strip (strip s) = strip s"
proof (cases "strip s = []")
  case True
  then have "strip (strip s) = strip []" by simp
  also have "\<dots> = []" by (simp add: strip_def)
  finally show ?thesis using True by simp
next
  case False
  then have "dropWhile py_space (strip s) = strip s"
    using strip_head [OF False] by (cases "strip s") auto
  then have "strip (strip s) = rev (dropWhile py_space (rev (strip s)))"
    by (simp add: strip_def)
  also have "\<dots> = strip s" by (simp add: strip_def)
  finally show ?thesis .
qed

lemma set_strip: "set (strip s) \<subseteq> set s"
proof -
  have "set (strip s) \<subseteq> set (dropWhile py_space s)"
    unfolding strip_def by (rule set_mono_prefix) (rule rev_dropWhile_rev_prefix)
  then show ?thesis using set_dropWhileD by fastforce
qed

lemma normalize_url_no_hash: "CHR ''#'' \<notin> set (normalize_url raw)"
proof -
  have "CHR ''#'' \<notin> set (takeWhile (\<lambda>c. c \<noteq> CHR ''?'') (takeWhile (\<lambda>c. c \<noteq> CHR ''#'') raw))"
    by (auto dest!: set_takeWhileD)
  then show ?thesis unfolding normalize_url_def using set_strip by blast
qed

lemma strip_normalize_url: "strip (normalize_url raw) = normalize_url raw"
  by (simp add: normalize_url_def strip_strip)

text \<open>
  Claim C5, as amended.  The value is first cut at the fragment and the query and
  trimmed.  The loop skips it exactly when the result is empty, or begins, in any
  letter case, with \<^verbatim>\<open>http://\<close>, \<^verbatim>\<open>https://\<close>, \<^verbatim>\<open>mailto:\<close>,
  \<^verbatim>\<open>tel:\<close>, \<^verbatim>\<open>javascript:\<close> or \<^verbatim>\<open>data:\<close>, or begins with two slashes
  (an anchor-only value is empty after the cut).  Every other value is local: it is
  reported unless its candidate exists.
\<close>

theorem link_classification:
  "(is_local (normalize_url raw) \<longleftrightarrow> \<not> skipped (normalize_url raw)) \<and>
   check_url st root path bad raw =
     (if skipped (normalize_url raw) \<or> os_exists st (candidate st root path (normalize_url raw))
      then bad
      else bad @ [(path, normalize_url raw, candidate st root path (normalize_url raw))])"
proof -
  have h: "\<not> prefix ''#'' (normalize_url raw)"
    using normalize_url_no_hash [of raw] by (auto simp: prefix_def)
  have 1: "is_local (normalize_url raw) \<longleftrightarrow> \<not> skipped (normalize_url raw)"
    using h by (auto simp: is_local_def is_ignored_def skipped_def strip_normalize_url Let_def)
  then show ?thesis
    by (auto simp: check_url_def Let_def is_local_def)
qed

text \<open>
  Claim C5 as stated fails: \<^verbatim>\<open>http:news.html\<close> begins with the scheme
  \<^verbatim>\<open>http:\<close>, which the claim lists as ignorable, and the link check treats it as
  a local reference.
\<close>

theorem scheme_without_slashes_is_local:
  "spec_ignorable ''http:news.html'' \<and> is_local (normalize_url ''http:news.html'')"
  by (simp add: spec_ignorable_def is_local_def is_ignored_def normalize_url_def strip_def
      py_space_def lower_def lower_char_def)







lemma is_dir_out [simp]: "is_dir (st\<lparr>out := x\<rparr>) d = is_dir st d"
  by (simp add: is_dir_def)

lemma exists_path_out [simp]: "exists_path (st\<lparr>out := x\<rparr>) p = exists_path st p"
  by (simp add: exists_path_def is_file_def)

lemma walk_path_out [simp]: "walk_path (st\<lparr>out := x\<rparr>) cur cs = walk_path st cur cs"
  by (induction cs arbitrary: cur) simp_all

lemma os_lookup_out [simp]: "os_lookup (st\<lparr>out := x\<rparr>) p = os_lookup st p"
  by (simp add: os_lookup_def)

lemma os_isdir_out [simp]: "os_isdir (st\<lparr>out := x\<rparr>) p = os_isdir st p"
  by (simp add: os_isdir_def split: option.splits)

lemma os_exists_out [simp]: "os_exists (st\<lparr>out := x\<rparr>) p = os_exists st p"
  by (simp add: os_exists_def)

lemma candidate_out [simp]: "candidate (st\<lparr>out := x\<rparr>) root path url = candidate st root path url"
  by (simp add: candidate_def Let_def)

lemma check_links_out [simp]: "check_links root (st\<lparr>out := x\<rparr>) = check_links root st"
proof -
  have "check_url (st\<lparr>out := x\<rparr>) root path = check_url st root path" for path
    by (intro ext) (simp add: check_url_def Let_def)
  then show ?thesis by (simp add: check_links_def walk_def)
qed





subsection \<open>The tracked move and the early exits\<close>

text \<open>
  Claim C3.  When the source does not exist or is not tracked,
  \<^verbatim>\<open>git_mv_if_exists_and_tracked\<close> does not fail and changes nothing but the
  output, to which it adds the line that the source is skipped; so the destination
  is as it was.
\<close>

theorem skipped_move_is_noop:
  assumes "\<not> exists_path st src \<or> \<not> is_tracked st src"
  shows "git_mv_if_exists_and_tracked e src dst st =
           Ok (st\<lparr>out := out st @ [Echo (''Skipping (not tracked or missing): '' @ src)]\<rparr>)"
  using assms by (auto simp: git_mv_if_exists_and_tracked_def echo_def)

theorem skipped_move_is_noop_witness:
  "\<not> exists_path repo0 ''img'' \<and> \<not> is_tracked repo0 ''img'' \<and>
   git_mv_if_exists_and_tracked env0 ''img'' ''docs/img'' repo0 =
     Ok (repo0\<lparr>out := out repo0 @ [Echo ''Skipping (not tracked or missing): img'']\<rparr>)"
proof -
  have h: "\<not> exists_path repo0 ''img''" "\<not> is_tracked repo0 ''img''"
    by code_simp+
  from skipped_move_is_noop [of repo0 "''img''" env0 "''docs/img''"] h show ?thesis by simp
qed



subsection \<open>Commits\<close>

lemma state_of_seq_Cons:
  "state_of (seq (f # fs) st) = (case f st of Ok st' \<Rightarrow> state_of (seq fs st') | Exit k st' \<Rightarrow> st')"
  by (simp split: result.splits)




































lemma state_of_seq_append:
  "state_of (seq (xs @ ys) st) =
     (case seq xs st of Ok st' \<Rightarrow> state_of (seq ys st') | Exit k st' \<Rightarrow> st')"
  by (induction xs arbitrary: st) (simp_all split: result.splits)




subsection \<open>Dry runs\<close>

lemma untouched_refl [simp]: "untouched st st"
  by (simp add: untouched_def)

lemma untouched_out [simp]: "untouched st (st'\<lparr>out := x\<rparr>) = untouched st st'"
  by (simp add: untouched_def)

























subsection \<open>The headings of a run\<close>

lemma phases_simps [simp]:
  "phases (st\<lparr>out := out st @ [Log s]\<rparr>) = phases st @ [s]"
  "phases (st\<lparr>out := out st @ [Echo s]\<rparr>) = phases st"
  "phases (ran c st) = phases st"
  "phases (st\<lparr>files := f\<rparr>) = phases st"
  "phases (st\<lparr>dirs := d\<rparr>) = phases st"
  "phases (st\<lparr>index := i\<rparr>) = phases st"
  "phases (st\<lparr>branch := b\<rparr>) = phases st"
  "phases (st\<lparr>refs := r\<rparr>) = phases st"
  "phases (st\<lparr>commits := m\<rparr>) = phases st"
  "phases (st\<lparr>cmds := k\<rparr>) = phases st"
  by (simp_all add: phases_def ran_def)














lemma logs_write_file: "logs [] (write_file p c)"
  by (auto simp: logs_def write_file_def split: if_splits)





























end
